theory Spec2Isabelle
  imports Main "HOL-Library.List_Lexorder" "HOL-Library.Char_ord" "HOL-Library.Sublist"
begin

section \<open>Data model of the code backup tool (file\_copy.py, restore\_env.py)\<close>

text \<open>
  The source tree is a list of nodes in directory-scan order. A file carries what the
  backup engine reads from it: its bytes, its modification time, whether it can be opened
  for hashing, and how many copy attempts on it fail before one succeeds.
\<close>

type_synonym hash = string

record src_file =
  content :: string
  mtime :: nat
  readable :: bool
  copy_faults :: nat

datatype fs_node = FileNode string src_file | DirNode string "fs_node list"

text \<open>
  One entry of the dict \<open>file_info\<close> built in \<open>copy_code_files\<close>. The key
  \<open>existed_in_last_backup\<close> is read by \<open>generate_change_report\<close> through
  \<open>dict.get\<close>; \<open>None\<close> stands for a dict without that key.
\<close>

record file_info =
  path :: string
  ext_type :: string
  size_bytes :: nat
  hash :: hash
  modified :: nat
  changed_since_last_backup :: bool
  existed_in_last_backup :: "bool option"

text \<open>A distribution of \<open>pkg_resources.working_set\<close>, and one recorded package.\<close>

record pkg =
  pkg_key :: string
  pkg_version :: string
  pkg_location :: string

record pkg_info =
  p_name :: string
  p_version :: string
  p_location :: string
  p_environment :: "string option"

text \<open>The dict \<open>backup_info\<close>, written as backup\_info.json.\<close>

record backup_info =
  timestamp :: string
  description :: string
  tags :: "string list"
  files :: "file_info list"
  statistics :: "string \<rightharpoonup> nat"
  exclude_folders :: "string set"
  environment :: string
  packages :: "pkg_info list"

text \<open>
  The destination root is the listing of \<open>target_dir\<close>. What a run reads back from a
  backup directory is the state of its backup\_info.json: absent, present but failing in
  \<open>json.load\<close> or in the dict comprehension over \<open>last_info['files']\<close>, or
  present and well formed. The kind of an entry is what \<open>os.path.isdir\<close> and
  \<open>os.path.isfile\<close> report, which follow symbolic links; \<open>d_is_link\<close> says
  that the entry itself is a symbolic link (\<open>os.path.islink\<close>).
\<close>

datatype manifest_state = NoManifest | Malformed | Manifest backup_info

datatype entry_kind = Directory | Regular | Other

record dest_entry =
  d_name :: string
  d_kind :: entry_kind
  d_mtime :: nat
  d_manifest :: manifest_state
  d_is_link :: bool

datatype error =
    HashReadError string
  | CopyError string
  | ManifestError string
  | NotADirectoryError string
  | KeyError string
  | OSError string

section \<open>Strings and paths\<close>

definition startswith :: "string \<Rightarrow> string \<Rightarrow> bool" where
  "startswith s pre = (take (length pre) s = pre)"

definition endswith :: "string \<Rightarrow> string \<Rightarrow> bool" where
  "endswith s suf = (length suf \<le> length s \<and> drop (length s - length suf) s = suf)"

text \<open>
  \<open>str.lower\<close> on the ASCII letters. Every recognised extension is ASCII and has no
  letter k, so the code points outside ASCII that Python lowers differently never decide
  membership in \<open>CODE_FILE_TYPES\<close>.
\<close>

definition lower_char :: "char \<Rightarrow> char" where
  "lower_char c =
     (case map_of (zip ''ABCDEFGHIJKLMNOPQRSTUVWXYZ'' ''abcdefghijklmnopqrstuvwxyz'') c of
        Some l \<Rightarrow> l
      | None \<Rightarrow> c)"

definition lower :: "string \<Rightarrow> string" where
  "lower s = map lower_char s"

text \<open>
  \<open>os.path.splitext(file)[1]\<close> for a bare file name: the text from the last dot on,
  unless that dot is among the leading dots of the name.
\<close>

definition splitext_ext :: "string \<Rightarrow> string" where
  "splitext_ext file =
     (if CHR ''.'' \<in> set (dropWhile (\<lambda>c. c = CHR ''.'') file)
      then CHR ''.'' # rev (takeWhile (\<lambda>c. c \<noteq> CHR ''.'') (rev file))
      else [])"

text \<open>
  \<open>os.path.relpath(os.path.join(root, file), source_dir)\<close> on POSIX, where
  \<open>root\<close> is \<open>source_dir\<close> followed by the directory names walked through: those
  names and the file name joined by the separator.
\<close>

fun join_path :: "string list \<Rightarrow> string" where
  "join_path [] = []"
| "join_path [x] = x"
| "join_path (x # y # ys) = x @ CHR ''/'' # join_path (y # ys)"

definition relpath :: "string list \<Rightarrow> string \<Rightarrow> string" where
  "relpath root file = join_path (root @ [file])"

text \<open>\<open>max\<close> of a non-empty list of strings: the first greatest one.\<close>

fun py_max :: "string list \<Rightarrow> string" where
  "py_max [] = []"
| "py_max (x # xs) = foldl (\<lambda>m y. if m < y then y else m) x xs"

section \<open>Traversal: os.walk with pruning of the excluded directories\<close>

definition CODE_FILE_TYPES :: "string set" where
  "CODE_FILE_TYPES =
     {''.py'', ''.md'', ''.txt'', ''.json'', ''.yml'', ''.yaml'', ''.js'', ''.html'',
      ''.css'', ''.sql'', ''.sh'', ''.bat'', ''.ini'', ''.conf'', ''.xml'', ''.toml''}"

fun dir_names :: "fs_node list \<Rightarrow> string list" where
  "dir_names [] = []"
| "dir_names (DirNode d sub # ns) = d # dir_names ns"
| "dir_names (FileNode f a # ns) = dir_names ns"

fun file_entries :: "fs_node list \<Rightarrow> (string \<times> src_file) list" where
  "file_entries [] = []"
| "file_entries (FileNode f a # ns) = (f, a) # file_entries ns"
| "file_entries (DirNode d sub # ns) = file_entries ns"

text \<open>
  The triples \<open>(root, dirs, files)\<close> that the loop
  \<open>for root, dirs, files in os.walk(source_dir)\<close> sees, where the loop body has
  replaced \<open>dirs[:]\<close> by the names outside \<open>exclude_folders\<close> before the
  generator descends. \<open>root\<close> is kept as the list of directory names below
  \<open>source_dir\<close>. The generator yields a directory first and then walks the remaining
  subdirectories in order.
\<close>

fun os_walk :: "string set \<Rightarrow> string list \<Rightarrow> fs_node list
    \<Rightarrow> (string list \<times> string list \<times> (string \<times> src_file) list) list"
  and walk_subdirs :: "string set \<Rightarrow> string list \<Rightarrow> fs_node list
    \<Rightarrow> (string list \<times> string list \<times> (string \<times> src_file) list) list" where
  "os_walk excl root ns =
     (root, filter (\<lambda>d. d \<notin> excl) (dir_names ns), file_entries ns) # walk_subdirs excl root ns"
| "walk_subdirs excl root [] = []"
| "walk_subdirs excl root (FileNode f a # ns) = walk_subdirs excl root ns"
| "walk_subdirs excl root (DirNode d sub # ns) =
     (if d \<notin> excl then os_walk excl (root @ [d]) sub else []) @ walk_subdirs excl root ns"

section \<open>Hashing and copying\<close>

text \<open>
  \<open>calculate_file_hash\<close> opens the file and feeds its bytes to SHA-256, which is taken
  as the parameter \<open>sha\<close>. Opening an unreadable file raises.
\<close>

definition calculate_file_hash :: "(string \<Rightarrow> hash) \<Rightarrow> string \<Rightarrow> src_file \<Rightarrow> error + hash" where
  "calculate_file_hash sha p f =
     (if readable f then Inr (sha (content f)) else Inl (HashReadError p))"

text \<open>
  \<open>shutil.copy2\<close>, called for the \<open>k\<close>-th time on a file (counting from 0): the
  first \<open>copy_faults\<close> calls raise, the later ones produce the copy with its
  modification time.
\<close>

definition shutil_copy2 :: "string \<Rightarrow> src_file \<Rightarrow> nat \<Rightarrow> error + (string \<times> string \<times> nat)" where
  "shutil_copy2 p f k =
     (if k < copy_faults f then Inl (CopyError p) else Inr (p, content f, mtime f))"

text \<open>
  The \<open>wrapper\<close> of the decorator \<open>retry_on_error(max_retries, delay)\<close>:
  \<open>func k\<close> is the outcome of the call made when \<open>retries = k\<close>. The loop returns
  the first result, re-raises the failure that brings \<open>retries\<close> to
  \<open>max_retries\<close>, and returns \<open>None\<close> when it is never entered.
\<close>

function wrapper :: "nat \<Rightarrow> (nat \<Rightarrow> error + 'a) \<Rightarrow> nat \<Rightarrow> error + 'a option" where
  "wrapper max_retries func retries =
     (if retries < max_retries then
        (case func retries of
           Inr v \<Rightarrow> Inr (Some v)
         | Inl e \<Rightarrow> if Suc retries = max_retries then Inl e
                    else wrapper max_retries func (Suc retries))
      else Inr None)"
  by pat_completeness auto
termination
  by (relation "measure (\<lambda>(m, f, r). m - r)") auto

declare wrapper.simps [simp del]

definition safe_copy_file :: "string \<Rightarrow> src_file \<Rightarrow> error + (string \<times> string \<times> nat) option" where
  "safe_copy_file p f = wrapper 3 (shutil_copy2 p f) 0"

section \<open>Environment capture\<close>

fun truthy :: "'a list option \<Rightarrow> bool" where
  "truthy None = False"
| "truthy (Some xs) = (xs \<noteq> [])"

fun names_of :: "'a list option \<Rightarrow> 'a list" where
  "names_of None = []"
| "names_of (Some xs) = xs"

text \<open>
  \<open>get_installed_packages\<close>. \<open>env_info_name\<close> is the collection of names in the
  order Python iterates over it; \<open>next(...)\<close> takes the first name contained in the
  lowered location.
\<close>

definition get_installed_packages :: "string list option \<Rightarrow> pkg list \<Rightarrow> pkg_info list" where
  "get_installed_packages env_info_name working_set =
     concat (map (\<lambda>pkg.
       if truthy env_info_name then
         (case find (\<lambda>env_name. sublist env_name (lower (pkg_location pkg)))
                 (names_of env_info_name) of
            Some env_name \<Rightarrow>
              [\<lparr>p_name = pkg_key pkg, p_version = pkg_version pkg,
                p_location = pkg_location pkg, p_environment = Some env_name\<rparr>]
          | None \<Rightarrow> [])
       else
         [\<lparr>p_name = pkg_key pkg, p_version = pkg_version pkg,
           p_location = pkg_location pkg, p_environment = None\<rparr>]) working_set)"

text \<open>\<open>pkg.get('environment', 'unknown')\<close>\<close>

definition env_of :: "pkg_info \<Rightarrow> string" where
  "env_of p = (case p_environment p of Some e \<Rightarrow> e | None \<Rightarrow> ''unknown'')"

text \<open>The dict \<open>env_packages\<close>, in insertion order.\<close>

definition group_by_env :: "pkg_info list \<Rightarrow> (string \<times> pkg_info list) list" where
  "group_by_env ps =
     map (\<lambda>e. (e, filter (\<lambda>p. env_of p = e) ps)) (remdups (rev (remdups (rev (map env_of ps)))))"

definition requirement_lines :: "pkg_info list \<Rightarrow> string list" where
  "requirement_lines ps = map (\<lambda>p. p_name p @ ''=='' @ p_version p) (sort_key p_name ps)"

text \<open>The requirements files written beside the manifest: name and lines of each.\<close>

definition requirements_files :: "string list option \<Rightarrow> pkg_info list \<Rightarrow> (string \<times> string list) list" where
  "requirements_files env_info_name packages_info =
     (if packages_info \<noteq> [] then
        (if truthy env_info_name then
           map (\<lambda>(env, pkgs). (''requirements_'' @ env @ ''.txt'', requirement_lines pkgs))
               (group_by_env packages_info)
         else [(''requirements.txt'', requirement_lines packages_info)])
      else [])"

section \<open>The previous backup\<close>

text \<open>
  The dict comprehension \<open>{file['path']: file['hash'] for file in last_info['files']}\<close>:
  a later entry overrides an earlier one with the same path.
\<close>

definition hash_map :: "file_info list \<Rightarrow> (string \<rightharpoonup> hash)" where
  "hash_map fs = foldl (\<lambda>m f. m(path f \<mapsto> hash f)) Map.empty fs"

text \<open>
  The block of \<open>copy_code_files\<close> that fills \<open>last_backup_hash\<close> from the listing
  of \<open>target_dir\<close>: the directory names, their \<open>max\<close>, and the manifest of that one
  directory, when it exists.
\<close>

definition last_backup_hash :: "dest_entry list \<Rightarrow> error + (string \<rightharpoonup> hash)" where
  "last_backup_hash target =
     (let backup_dirs = map d_name (filter (\<lambda>e. d_kind e = Directory) target) in
      if backup_dirs = [] then Inr Map.empty
      else
        (let last_backup_dir = py_max backup_dirs in
         case find (\<lambda>e. d_kind e = Directory \<and> d_name e = last_backup_dir) target of
           None \<Rightarrow> Inr Map.empty
         | Some e \<Rightarrow>
             (case d_manifest e of
                NoManifest \<Rightarrow> Inr Map.empty
              | Malformed \<Rightarrow> Inl (ManifestError last_backup_dir)
              | Manifest last_info \<Rightarrow> Inr (hash_map (files last_info)))))"

section \<open>The copy loop\<close>

fun fold_err :: "('s \<Rightarrow> 'a \<Rightarrow> error + 's) \<Rightarrow> 'a list \<Rightarrow> 's \<Rightarrow> error + 's" where
  "fold_err f [] s = Inr s"
| "fold_err f (x # xs) s = (case f s x of Inl e \<Rightarrow> Inl e | Inr s' \<Rightarrow> fold_err f xs s')"

text \<open>\<open>is_modified\<close> as the loop computes it from \<open>last_backup_hash\<close>.\<close>

definition is_modified :: "(string \<rightharpoonup> hash) \<Rightarrow> string \<Rightarrow> hash \<Rightarrow> bool" where
  "is_modified prior relative_path file_hash =
     (case prior relative_path of None \<Rightarrow> True | Some h \<Rightarrow> h \<noteq> file_hash)"

text \<open>The dict literal \<open>file_info\<close> of the loop body.\<close>

definition file_info_of ::
  "(string \<rightharpoonup> hash) \<Rightarrow> string \<Rightarrow> string \<Rightarrow> src_file \<Rightarrow> hash \<Rightarrow> file_info" where
  "file_info_of prior relative_path file_ext f file_hash =
     \<lparr>path = relative_path, ext_type = file_ext, size_bytes = length (content f),
      hash = file_hash, modified = mtime f,
      changed_since_last_backup = is_modified prior relative_path file_hash,
      existed_in_last_backup = None\<rparr>"

text \<open>
  The body of \<open>for file in files\<close>. The state is \<open>backup_info\<close> and the files copied
  so far. \<open>dir_ok\<close> says that \<open>backup_dir\<close> is a directory, so that the target path
  can be created below it. The copy is the one call \<open>shutil.copy2(source_file, target_file)\<close>.
\<close>

definition backup_file ::
  "(string \<Rightarrow> hash) \<Rightarrow> (string \<rightharpoonup> hash) \<Rightarrow> bool \<Rightarrow> string list
    \<Rightarrow> backup_info \<times> (string \<times> string \<times> nat) list \<Rightarrow> string \<times> src_file
    \<Rightarrow> error + backup_info \<times> (string \<times> string \<times> nat) list" where
  "backup_file sha prior dir_ok root st entry =
     (let file = fst entry; f = snd entry; file_ext = lower (splitext_ext file) in
      if file_ext \<in> CODE_FILE_TYPES then
        (let relative_path = relpath root file in
         case calculate_file_hash sha relative_path f of
           Inl e \<Rightarrow> Inl e
         | Inr file_hash \<Rightarrow>
             if \<not> dir_ok then Inl (NotADirectoryError relative_path)
             else
               (case shutil_copy2 relative_path f 0 of
                  Inl e \<Rightarrow> Inl e
                | Inr c \<Rightarrow>
                    (case statistics (fst st) file_ext of
                       None \<Rightarrow> Inl (KeyError file_ext)
                     | Some n \<Rightarrow>
                         Inr ((fst st)\<lparr>files := files (fst st) @
                                 [file_info_of prior relative_path file_ext f file_hash],
                               statistics := (statistics (fst st))(file_ext \<mapsto> n + 1)\<rparr>,
                              snd st @ [c]))))
      else Inr st)"

definition backup_root ::
  "(string \<Rightarrow> hash) \<Rightarrow> (string \<rightharpoonup> hash) \<Rightarrow> bool
    \<Rightarrow> backup_info \<times> (string \<times> string \<times> nat) list
    \<Rightarrow> string list \<times> string list \<times> (string \<times> src_file) list
    \<Rightarrow> error + backup_info \<times> (string \<times> string \<times> nat) list" where
  "backup_root sha prior dir_ok st triple =
     fold_err (backup_file sha prior dir_ok (fst triple)) (snd (snd triple)) st"

section \<open>Change report and summary\<close>

record changes =
  c_new :: "string list"
  c_modified :: "string list"
  c_unchanged :: "string list"

text \<open>\<open>not file_info.get('existed_in_last_backup')\<close>: an absent key gives \<open>None\<close>.\<close>

fun not_existed :: "bool option \<Rightarrow> bool" where
  "not_existed None = True"
| "not_existed (Some b) = (\<not> b)"

definition classify :: "changes \<Rightarrow> file_info \<Rightarrow> changes" where
  "classify ch fi =
     (if changed_since_last_backup fi then
        (if not_existed (existed_in_last_backup fi)
         then ch\<lparr>c_new := c_new ch @ [path fi]\<rparr>
         else ch\<lparr>c_modified := c_modified ch @ [path fi]\<rparr>)
      else ch\<lparr>c_unchanged := c_unchanged ch @ [path fi]\<rparr>)"

definition generate_change_report :: "backup_info \<Rightarrow> changes" where
  "generate_change_report info =
     foldl classify \<lparr>c_new = [], c_modified = [], c_unchanged = []\<rparr> (files info)"

record summary =
  s_timestamp :: string
  s_total_files :: nat
  s_total_size :: nat
  s_new_files :: nat
  s_modified_files :: nat
  s_unchanged_files :: nat

definition generate_backup_summary :: "backup_info \<Rightarrow> changes \<Rightarrow> summary" where
  "generate_backup_summary info ch =
     \<lparr>s_timestamp = timestamp info,
      s_total_files = length (files info),
      s_total_size = sum_list (map size_bytes (files info)),
      s_new_files = length (c_new ch),
      s_modified_files = length (c_modified ch),
      s_unchanged_files = length (c_unchanged ch)\<rparr>"

section \<open>The backup engine\<close>

text \<open>
  What one run reads from its surroundings: the two renderings of \<open>datetime.now()\<close>,
  the modification time the backup directory gets, the installed distributions and the
  interpreter description.
\<close>

record run_env =
  now_dirname :: string
  now_stamp :: string
  now_mtime :: nat
  working_set :: "pkg list"
  python_env :: string

record backup_result =
  backup_dir :: string
  info :: backup_info
  report :: changes
  digest :: summary
  requirements :: "(string \<times> string list) list"
  copied :: "(string \<times> string \<times> nat) list"
  target_after :: "dest_entry list"

text \<open>
  \<open>os.makedirs(backup_dir)\<close> unless the path exists: a new, empty directory at the end
  of the listing.
\<close>

definition make_backup_dir :: "run_env \<Rightarrow> dest_entry list \<Rightarrow> dest_entry list" where
  "make_backup_dir env target =
     (if now_dirname env \<in> set (map d_name target) then target
      else target @ [\<lparr>d_name = now_dirname env, d_kind = Directory,
                      d_mtime = now_mtime env, d_manifest = NoManifest,
                      d_is_link = False\<rparr>])"

text \<open>Writing backup\_info.json into the backup directory.\<close>

definition write_manifest :: "run_env \<Rightarrow> backup_info \<Rightarrow> dest_entry list \<Rightarrow> dest_entry list" where
  "write_manifest env bi target =
     map (\<lambda>e. if d_name e = now_dirname env
               then e\<lparr>d_mtime := now_mtime env, d_manifest := Manifest bi\<rparr> else e) target"

definition is_directory :: "string \<Rightarrow> dest_entry list \<Rightarrow> bool" where
  "is_directory n target = (\<exists>e \<in> set target. d_name e = n \<and> d_kind e = Directory)"

text \<open>The dict \<open>backup_info\<close> as it is before the walk.\<close>

definition initial_backup_info :: "run_env \<Rightarrow> string \<Rightarrow> string list option \<Rightarrow> backup_info" where
  "initial_backup_info env descr tgs =
     \<lparr>timestamp = now_stamp env, description = descr, tags = names_of tgs, files = [],
      statistics = (\<lambda>ext. if ext \<in> CODE_FILE_TYPES then Some 0 else None),
      exclude_folders = {}, environment = [], packages = []\<rparr>"

text \<open>
  \<open>copy_code_files(source_dir, target_dir, description, tags, exclude_folders, env_info_name)\<close>,
  in the order of the source: the parameter \<open>env_info_name\<close> is overwritten by the
  literal set, the backup directory is created, \<open>backup_info\<close> is initialised, the
  previous hashes are looked up in the listing of \<open>target_dir\<close>, the tree is walked and
  copied, and the reports and the manifest are written. \<open>get_total_size\<close> only feeds
  the progress bar and is left out. The literal set is taken in the order lcychat,
  openmmlab; the order matters only for a distribution whose location contains both names.
\<close>

definition copy_code_files ::
  "(string \<Rightarrow> hash) \<Rightarrow> run_env \<Rightarrow> fs_node list \<Rightarrow> dest_entry list \<Rightarrow> string
    \<Rightarrow> string list option \<Rightarrow> string list option \<Rightarrow> string list option
    \<Rightarrow> error + backup_result" where
  "copy_code_files sha env source_dir target_dir descr tgs excl_folders env_info_name0 =
     (let excl = set (names_of excl_folders);
          env_info_name = Some [''lcychat'', ''openmmlab''];
          target1 = make_backup_dir env target_dir;
          dir_ok = is_directory (now_dirname env) target1
      in case last_backup_hash target1 of
           Inl e \<Rightarrow> Inl e
         | Inr prior \<Rightarrow>
             (case fold_err (backup_root sha prior dir_ok) (os_walk excl [] source_dir)
                     (initial_backup_info env descr tgs, []) of
                Inl e \<Rightarrow> Inl e
              | Inr st \<Rightarrow>
                  if \<not> dir_ok then Inl (NotADirectoryError (now_dirname env))
                  else
                    (let packages_info = get_installed_packages env_info_name (working_set env);
                         backup_info1 = (fst st)\<lparr>exclude_folders := excl,
                                                 environment := python_env env,
                                                 packages := packages_info\<rparr>;
                         chs = generate_change_report backup_info1
                     in Inr \<lparr>backup_dir = now_dirname env,
                             info = backup_info1,
                             report = chs,
                             digest = generate_backup_summary backup_info1 chs,
                             requirements = requirements_files env_info_name packages_info,
                             copied = snd st,
                             target_after = write_manifest env backup_info1 target1\<rparr>)))"

section \<open>Retention\<close>

text \<open>The slice \<open>xs[k:]\<close>; a negative \<open>k\<close> counts from the end.\<close>

definition py_slice_from :: "int \<Rightarrow> 'a list \<Rightarrow> 'a list" where
  "py_slice_from k xs =
     (if 0 \<le> k then drop (nat k) xs else drop (length xs - nat (- k)) xs)"

text \<open>
  An item of \<open>target_dir\<close> that \<open>cleanup_old_backups\<close> collects: a directory, or a
  regular file whose name ends in .zip.
\<close>

definition is_backup_item :: "dest_entry \<Rightarrow> bool" where
  "is_backup_item e =
     (d_kind e = Directory \<or> (d_kind e = Regular \<and> endswith (d_name e) ''.zip''))"

text \<open>
  \<open>backup_dirs.sort(key=getmtime, reverse=True)\<close> is stable: items with the same
  time keep their listing order. \<open>old_backups\<close> is the slice
  \<open>backup_dirs[keep_count:]\<close> that the deleting loop runs over.
\<close>

definition old_backups :: "dest_entry list \<Rightarrow> int \<Rightarrow> dest_entry list" where
  "old_backups target keep_count =
     py_slice_from keep_count
       (sort_key (\<lambda>e. - int (d_mtime e)) (filter is_backup_item target))"

text \<open>
  The loop \<open>for old_backup in backup_dirs[keep_count:]\<close>, on the listing: a directory
  goes through \<open>shutil.rmtree\<close>, which raises on a symbolic link to a directory and
  so ends the loop with the remaining entries in place; anything else goes through
  \<open>os.remove\<close>. The result is the exception raised, if any, and the listing left.
\<close>

fun delete_each :: "dest_entry list \<Rightarrow> dest_entry list \<Rightarrow> error option \<times> dest_entry list" where
  "delete_each [] target = (None, target)"
| "delete_each (old_backup # rest) target =
     (if d_kind old_backup = Directory then
        (if d_is_link old_backup then (Some (OSError (d_name old_backup)), target)
         else delete_each rest (filter (\<lambda>e. d_name e \<noteq> d_name old_backup) target))
      else delete_each rest (filter (\<lambda>e. d_name e \<noteq> d_name old_backup) target))"

definition cleanup_old_backups ::
  "dest_entry list \<Rightarrow> int \<Rightarrow> error option \<times> dest_entry list" where
  "cleanup_old_backups target keep_count = delete_each (old_backups target keep_count) target"

section \<open>Restoring an environment (restore\_env.py)\<close>

text \<open>
  \<open>main\<close> of restore\_env.py, up to the point where it hands over to
  \<open>create_virtual_env\<close> and \<open>install_requirements\<close>. The backup directory is the
  list of its entry names in scan order. The function either prints that the requirements
  file is missing and returns, or goes on with an environment name and one requirements
  file.
\<close>

datatype restore_outcome = NotFoundMessage string | Restored string string

text \<open>\<open>backup_dir.glob('requirements_*.txt')\<close>\<close>

definition glob_requirements :: "string list \<Rightarrow> string list" where
  "glob_requirements names =
     filter (\<lambda>n. startswith n ''requirements_'' \<and> endswith n ''.txt'' \<and> 17 \<le> length n) names"

fun arg_or_empty :: "string option \<Rightarrow> string" where
  "arg_or_empty None = []"
| "arg_or_empty (Some n) = n"

definition restore_env_main :: "string list \<Rightarrow> string option \<Rightarrow> restore_outcome" where
  "restore_env_main backup_dir_names env_name_arg =
     (let env_name = arg_or_empty env_name_arg;
          req_file =
            (if env_name \<noteq> [] then ''requirements_'' @ env_name @ ''.txt''
             else (case glob_requirements backup_dir_names of
                     [] \<Rightarrow> ''requirements.txt''
                   | r # rs \<Rightarrow> r))
      in if req_file \<notin> set backup_dir_names then NotFoundMessage req_file
         else Restored (if env_name \<noteq> [] then env_name else ''restored_env'') req_file)"

text \<open>The requirements files that reach the installer.\<close>

fun exposed :: "restore_outcome \<Rightarrow> string list" where
  "exposed (NotFoundMessage m) = []"
| "exposed (Restored env req_file) = [req_file]"

section \<open>Notions used to state the properties\<close>

definition recognised :: "string \<times> src_file \<Rightarrow> bool" where
  "recognised entry = (lower (splitext_ext (fst entry)) \<in> CODE_FILE_TYPES)"

text \<open>The record the loop appends for a recognised file that is hashed and copied.\<close>

definition record_of ::
  "(string \<Rightarrow> hash) \<Rightarrow> (string \<rightharpoonup> hash) \<Rightarrow> string list \<Rightarrow> string \<times> src_file \<Rightarrow> file_info" where
  "record_of sha prior root entry =
     file_info_of prior (relpath root (fst entry)) (lower (splitext_ext (fst entry)))
       (snd entry) (sha (content (snd entry)))"

definition records_of_walk ::
  "(string \<Rightarrow> hash) \<Rightarrow> (string \<rightharpoonup> hash)
    \<Rightarrow> (string list \<times> string list \<times> (string \<times> src_file) list) list \<Rightarrow> file_info list" where
  "records_of_walk sha prior ws =
     concat (map (\<lambda>t. map (record_of sha prior (fst t)) (filter recognised (snd (snd t)))) ws)"

text \<open>A name of a directory entry holds no path separator.\<close>

definition slash_free :: "string \<Rightarrow> bool" where
  "slash_free s = (CHR ''/'' \<notin> set s)"

fun wf_nodes :: "fs_node list \<Rightarrow> bool" where
  "wf_nodes [] = True"
| "wf_nodes (FileNode f a # ns) = (slash_free f \<and> wf_nodes ns)"
| "wf_nodes (DirNode d sub # ns) = (slash_free d \<and> wf_nodes sub \<and> wf_nodes ns)"

definition has_manifest :: "dest_entry \<Rightarrow> bool" where
  "has_manifest e = (case d_manifest e of Manifest bi \<Rightarrow> True | _ \<Rightarrow> False)"

text \<open>
  The selection of the previous manifest in the words of the specification: the greatest
  directory name among the directories that hold a readable manifest, and no previous
  hashes when there is none.
\<close>

definition spec_last_backup_hash :: "dest_entry list \<Rightarrow> (string \<rightharpoonup> hash)" where
  "spec_last_backup_hash target =
     (let valid = filter (\<lambda>e. d_kind e = Directory \<and> has_manifest e) target in
      if valid = [] then Map.empty
      else (case find (\<lambda>e. d_name e = py_max (map d_name valid)) valid of
              None \<Rightarrow> Map.empty
            | Some e \<Rightarrow> (case d_manifest e of
                           Manifest bi \<Rightarrow> hash_map (files bi)
                         | _ \<Rightarrow> Map.empty)))"

text \<open>
  The counting invariant of the loop: \<open>statistics\<close> has exactly the recognised
  extensions as keys, each with the number of records of that extension, and every record
  has a recognised extension.
\<close>

definition stats_ok :: "backup_info \<Rightarrow> bool" where
  "stats_ok bi =
     ((\<forall>ext. statistics bi ext =
         (if ext \<in> CODE_FILE_TYPES
          then Some (length (filter (\<lambda>r. ext_type r = ext) (files bi))) else None)) \<and>
      (\<forall>r \<in> set (files bi). ext_type r \<in> CODE_FILE_TYPES))"

section \<open>Concrete inputs\<close>

definition plain_file :: "string \<Rightarrow> src_file" where
  "plain_file c = \<lparr>content = c, mtime = 1, readable = True, copy_faults = 0\<rparr>"

definition run_at :: "string \<Rightarrow> nat \<Rightarrow> run_env" where
  "run_at name t =
     \<lparr>now_dirname = name, now_stamp = name, now_mtime = t,
      working_set = [\<lparr>pkg_key = ''numpy'', pkg_version = ''1.26'',
                      pkg_location = ''/opt/envs/LCYchat/lib''\<rparr>],
      python_env = ''3.10''\<rparr>"

definition dir_entry :: "string \<Rightarrow> nat \<Rightarrow> manifest_state \<Rightarrow> dest_entry" where
  "dir_entry n t m =
     \<lparr>d_name = n, d_kind = Directory, d_mtime = t, d_manifest = m, d_is_link = False\<rparr>"

definition manifest_with :: "string \<Rightarrow> hash \<Rightarrow> manifest_state" where
  "manifest_with p h =
     Manifest \<lparr>timestamp = [], description = [], tags = [],
       files = [\<lparr>path = p, ext_type = ''.py'', size_bytes = 1, hash = h, modified = 1,
                 changed_since_last_backup = True, existed_in_last_backup = None\<rparr>],
       statistics = Map.empty, exclude_folders = {}, environment = [], packages = []\<rparr>"

text \<open>The destination root as the first run leaves it, for a source holding one file.\<close>

definition after_first_run :: "(string \<Rightarrow> hash) \<Rightarrow> string \<Rightarrow> dest_entry list" where
  "after_first_run sha c =
     (case copy_code_files sha (run_at ''20240101_000000'' 10) [FileNode ''a.py'' (plain_file c)]
             [] [] None None None of
        Inl e \<Rightarrow> []
      | Inr r \<Rightarrow> target_after r)"

definition demo_source :: "fs_node list" where
  "demo_source =
     [FileNode ''a.py'' (plain_file ''v1''),
      FileNode ''notes.MD'' (plain_file ''n''),
      FileNode ''image.png'' (plain_file ''p''),
      DirNode ''node_modules'' [FileNode ''dep.js'' (plain_file ''d'')],
      DirNode ''pkg'' [FileNode ''b.py'' (plain_file ''b'')]]"

text \<open>A destination root whose greatest directory holds a manifest listing a.py.\<close>

definition demo_target :: "dest_entry list" where
  "demo_target = [dir_entry ''20240102_000000'' 5 (manifest_with ''a.py'' ''v1'')]"

text \<open>
  A destination root where the newest backup directory was left without a manifest, and
  one where its manifest cannot be read.
\<close>

definition demo_interrupted :: "dest_entry list" where
  "demo_interrupted =
     [dir_entry ''20240101_000000'' 1 (manifest_with ''a.py'' ''h''),
      dir_entry ''20240102_000000'' 2 NoManifest]"

definition demo_corrupt :: "dest_entry list" where
  "demo_corrupt =
     [dir_entry ''20240101_000000'' 1 (manifest_with ''a.py'' ''h''),
      dir_entry ''20240102_000000'' 2 Malformed]"


text \<open>
  A destination root whose oldest entry is a symbolic link to a directory, between two
  backup directories.
\<close>

definition demo_linked_backups :: "dest_entry list" where
  "demo_linked_backups =
     [dir_entry ''20240102_000000'' 2 NoManifest,
      (dir_entry ''linked'' 1 NoManifest)\<lparr>d_is_link := True\<rparr>,
      dir_entry ''20240103_000000'' 3 NoManifest]"

text \<open>The names in a backup directory that holds two requirements files.\<close>

definition demo_backup_names :: "string list" where
  "demo_backup_names = [''backup_info.json'', ''requirements_a.txt'', ''requirements_b.txt'']"

section \<open>Evaluating the engine on concrete inputs\<close>

lemmas engine_defs =
  copy_code_files_def initial_backup_info_def Let_def run_at_def plain_file_def make_backup_dir_def is_directory_def
  last_backup_hash_def backup_root_def backup_file_def lower_def lower_char_def
  splitext_ext_def CODE_FILE_TYPES_def relpath_def calculate_file_hash_def shutil_copy2_def
  write_manifest_def file_info_of_def is_modified_def hash_map_def

lemma after_first_run_listing:
  "map d_name (after_first_run sha c) = [''20240101_000000''] \<and>
   map d_kind (after_first_run sha c) = [Directory] \<and>
   (\<exists>bi. map d_manifest (after_first_run sha c) = [Manifest bi] \<and>
      map path (files bi) = [''a.py''] \<and> map hash (files bi) = [sha c])"
  by (simp add: after_first_run_def engine_defs)

section \<open>The caller's environment names\<close>

text \<open>
  The model of \<open>get_installed_packages\<close> does depend on the names it is given: with
  no names every distribution is recorded, with names only those located under one of them.
\<close>

lemma get_installed_packages_depends_on_names:
  "get_installed_packages None [\<lparr>pkg_key = ''numpy'', pkg_version = ''1.26'',
       pkg_location = ''/usr/lib/python3''\<rparr>] \<noteq>
   get_installed_packages (Some [''lcychat'']) [\<lparr>pkg_key = ''numpy'', pkg_version = ''1.26'',
       pkg_location = ''/usr/lib/python3''\<rparr>]"
  by (simp add: get_installed_packages_def lower_def lower_char_def sublist_code)

text \<open>
  C10. \<open>copy_code_files\<close> assigns the literal set of environment names to
  \<open>env_info_name\<close> before it is first read, so two invocations that differ only in
  the \<open>env_info_name\<close> argument (any two values, \<open>None\<close> included) give the same
  outcome: the same error or the same result, and in particular the same recorded packages
  and the same requirements files.
\<close>

theorem env_info_name_argument_has_no_effect:
  "copy_code_files sha env source_dir target_dir descr tgs excl names1 =
   copy_code_files sha env source_dir target_dir descr tgs excl names2"
  by (simp add: copy_code_files_def)

section \<open>Re-running on an unchanged tree\<close>

text \<open>
  C1 (the code departs from the claim). A source tree holding the one file a.py is backed
  up into an empty destination root at 20240101\_000000 and again, unchanged, one second
  later. Before the second run the destination root holds the first manifest with the hash
  of a.py, and the lookup on that listing finds it. The second run creates its own directory
  before it lists the destination root, the new name is the greatest, that directory has
  no manifest yet, and the run records a.py with \<open>changed_since_last_backup = True\<close>.
\<close>

theorem second_run_marks_unchanged_file_changed:
  "(\<exists>m. last_backup_hash (after_first_run sha c) = Inr m \<and> m ''a.py'' = Some (sha c)) \<and>
   (\<exists>r. copy_code_files sha (run_at ''20240101_000001'' 11) [FileNode ''a.py'' (plain_file c)]
          (after_first_run sha c) [] None None None = Inr r \<and>
        map path (files (info r)) = [''a.py''] \<and>
        map hash (files (info r)) = [sha c] \<and>
        map changed_since_last_backup (files (info r)) = [True])"
  by (simp add: after_first_run_def engine_defs)

section \<open>Classification in the change report\<close>

lemma classify_without_key:
  "existed_in_last_backup fi = None \<Longrightarrow> c_modified (classify ch fi) = c_modified ch"
  by (simp add: classify_def)

lemma generate_change_report_without_key:
  assumes "\<forall>fi \<in> set (files bi). existed_in_last_backup fi = None"
  shows "c_modified (generate_change_report bi) = []"
proof -
  have "c_modified (foldl classify ch fs) = c_modified ch"
    if "\<forall>fi \<in> set fs. existed_in_last_backup fi = None" for ch fs
    using that by (induction fs arbitrary: ch) (simp_all add: classify_without_key)
  from this [OF assms] show ?thesis by (simp add: generate_change_report_def)
qed

text \<open>
  C4 (the code departs from the claim). a.py is backed up with content v1, edited to v2
  and backed up again one second later. The first manifest lists a.py, the second run
  records it as changed, and \<open>generate_change_report\<close> files it under \<open>new\<close>
  and leaves \<open>modified\<close> empty: the key \<open>existed_in_last_backup\<close> that decides
  between the two is never written by \<open>copy_code_files\<close>.
\<close>

theorem edited_file_is_reported_new:
  "\<exists>r. copy_code_files sha (run_at ''20240101_000001'' 11) [FileNode ''a.py'' (plain_file ''v2'')]
          (after_first_run sha ''v1'') [] None None None = Inr r \<and>
        map changed_since_last_backup (files (info r)) = [True] \<and>
        report r = \<lparr>c_new = [''a.py''], c_modified = [], c_unchanged = []\<rparr>"
  by (simp add: after_first_run_def engine_defs generate_change_report_def classify_def)

section \<open>Copy failures\<close>

text \<open>The decorated copy succeeds exactly when fewer than three attempts fail.\<close>

lemma safe_copy_file_retries:
  "safe_copy_file p f =
     (if copy_faults f < 3 then Inr (Some (p, content f, mtime f)) else Inl (CopyError p))"
  by (simp add: safe_copy_file_def wrapper.simps shutil_copy2_def)

text \<open>
  C5 (the code departs from the claim). The first attempt to copy a.py fails and a second
  one would succeed. \<open>safe_copy_file\<close>, the copy under \<open>retry_on_error\<close>, delivers
  the copy; \<open>copy_code_files\<close> calls \<open>shutil.copy2\<close> once and the run ends with
  the copy error.
\<close>

theorem engine_copy_is_not_retried:
  "safe_copy_file ''a.py'' ((plain_file c)\<lparr>copy_faults := 1\<rparr>) = Inr (Some (''a.py'', c, 1)) \<and>
   copy_code_files sha (run_at ''20240101_000000'' 10)
     [FileNode ''a.py'' ((plain_file c)\<lparr>copy_faults := 1\<rparr>)] [] [] None None None =
   Inl (CopyError ''a.py'')"
  by (simp add: safe_copy_file_def wrapper.simps engine_defs)

section \<open>What a successful run records\<close>

lemma fold_err_preserves:
  assumes step: "\<And>s x s'. P s \<Longrightarrow> f s x = Inr s' \<Longrightarrow> P s'"
    and "P s" and "fold_err f xs s = Inr s'"
  shows "P s'"
  using assms(2,3)
proof (induction xs arbitrary: s)
  case Nil
  then show ?case by simp
next
  case (Cons x xs)
  from Cons.prems(2) obtain s1 where s1: "f s x = Inr s1" and rest: "fold_err f xs s1 = Inr s'"
    by (auto split: sum.splits)
  from step [OF Cons.prems(1) s1] have "P s1" .
  from Cons.IH [OF this rest] show ?case .
qed

lemma backup_file_files:
  assumes "backup_file sha prior ok root st entry = Inr st'"
  shows "files (fst st') =
    files (fst st) @ map (record_of sha prior root) (filter recognised [entry])"
  using assms
  by (auto simp: backup_file_def Let_def recognised_def record_of_def calculate_file_hash_def
      split: if_splits sum.splits option.splits)

lemma fold_backup_file_files:
  "fold_err (backup_file sha prior ok root) fs st = Inr st' \<Longrightarrow>
   files (fst st') = files (fst st) @ map (record_of sha prior root) (filter recognised fs)"
proof (induction fs arbitrary: st)
  case Nil
  then show ?case by simp
next
  case (Cons x xs)
  from Cons.prems obtain s1 where s1: "backup_file sha prior ok root st x = Inr s1"
    and rest: "fold_err (backup_file sha prior ok root) xs s1 = Inr st'"
    by (auto split: sum.splits)
  from backup_file_files [OF s1] Cons.IH [OF rest] show ?case by simp
qed

lemma fold_backup_root_files:
  "fold_err (backup_root sha prior ok) ws st = Inr st' \<Longrightarrow>
   files (fst st') = files (fst st) @ records_of_walk sha prior ws"
proof (induction ws arbitrary: st)
  case Nil
  then show ?case by (simp add: records_of_walk_def)
next
  case (Cons w ws)
  from Cons.prems obtain s1 where s1: "backup_root sha prior ok st w = Inr s1"
    and rest: "fold_err (backup_root sha prior ok) ws s1 = Inr st'"
    by (auto split: sum.splits)
  from s1 have "files (fst s1) =
      files (fst st) @ map (record_of sha prior (fst w)) (filter recognised (snd (snd w)))"
    unfolding backup_root_def by (rule fold_backup_file_files)
  with Cons.IH [OF rest] show ?case by (simp add: records_of_walk_def)
qed

lemma copy_code_files_success:
  assumes "copy_code_files sha env src tgt d t x e = Inr res"
  obtains prior st where
    "last_backup_hash (make_backup_dir env tgt) = Inr prior"
    "fold_err (backup_root sha prior (is_directory (now_dirname env) (make_backup_dir env tgt)))
       (os_walk (set (names_of x)) [] src) (initial_backup_info env d t, []) = Inr st"
    "files (info res) = files (fst st)"
    "statistics (info res) = statistics (fst st)"
  using assms
  by (auto simp: copy_code_files_def Let_def simp del: os_walk.simps
      split: sum.splits if_splits)

lemma copy_code_files_files:
  assumes "copy_code_files sha env src tgt d t x e = Inr res"
  shows "\<exists>prior. last_backup_hash (make_backup_dir env tgt) = Inr prior \<and>
     files (info res) = records_of_walk sha prior (os_walk (set (names_of x)) [] src)"
proof -
  from assms obtain prior st where
    prior: "last_backup_hash (make_backup_dir env tgt) = Inr prior"
    and loop: "fold_err
       (backup_root sha prior (is_directory (now_dirname env) (make_backup_dir env tgt)))
       (os_walk (set (names_of x)) [] src) (initial_backup_info env d t, []) = Inr st"
    and res: "files (info res) = files (fst st)"
    by (rule copy_code_files_success)
  from fold_backup_root_files [OF loop] res prior show ?thesis
    by (simp add: initial_backup_info_def)
qed

section \<open>The counting invariant\<close>

lemma backup_file_stats_ok:
  assumes "stats_ok (fst st)" and "backup_file sha prior ok root st entry = Inr st'"
  shows "stats_ok (fst st')"
proof (cases "lower (splitext_ext (fst entry)) \<in> CODE_FILE_TYPES")
  case False
  with assms show ?thesis by (simp add: backup_file_def Let_def)
next
  case True
  define ext where "ext = lower (splitext_ext (fst entry))"
  from assms(2) True obtain h c n where
    n: "statistics (fst st) ext = Some n"
    and st': "fst st' = (fst st)\<lparr>files := files (fst st) @
        [file_info_of prior (relpath root (fst entry)) ext (snd entry) h],
        statistics := (statistics (fst st))(ext \<mapsto> n + 1)\<rparr>"
    by (auto simp: backup_file_def Let_def ext_def split: sum.splits if_splits option.splits)
  have et: "ext_type (file_info_of prior (relpath root (fst entry)) ext (snd entry) h) = ext"
    by (simp add: file_info_of_def)
  from assms(1) n True have "n = length (filter (\<lambda>r. ext_type r = ext) (files (fst st)))"
    by (simp add: stats_ok_def ext_def)
  with assms(1) True et show ?thesis
    unfolding stats_ok_def st' by (auto simp: ext_def)
qed

lemma backup_root_stats_ok:
  assumes "stats_ok (fst st)" and "backup_root sha prior ok st w = Inr st'"
  shows "stats_ok (fst st')"
  using assms(2) unfolding backup_root_def
  by (rule fold_err_preserves [where P = "\<lambda>s. stats_ok (fst s)", rotated 2])
     (auto intro: backup_file_stats_ok assms(1))

lemma walk_stats_ok:
  assumes "stats_ok (fst st)" and "fold_err (backup_root sha prior ok) ws st = Inr st'"
  shows "stats_ok (fst st')"
  using assms(2)
  by (rule fold_err_preserves [where P = "\<lambda>s. stats_ok (fst s)", rotated 2])
     (auto intro: backup_root_stats_ok assms(1))

text \<open>
  C7. In the manifest of every run that completes, \<open>statistics\<close> maps each recognised
  extension to the number of file records with that extension, it has no other keys, and
  every file record carries a recognised extension.
\<close>

theorem manifest_counting_invariant:
  assumes "copy_code_files sha env src tgt d t x e = Inr res"
  shows "(\<forall>ext \<in> CODE_FILE_TYPES. statistics (info res) ext =
            Some (length (filter (\<lambda>r. ext_type r = ext) (files (info res))))) \<and>
         dom (statistics (info res)) = CODE_FILE_TYPES \<and>
         (\<forall>r \<in> set (files (info res)). ext_type r \<in> CODE_FILE_TYPES)"
proof -
  from assms obtain prior st where
    loop: "fold_err
       (backup_root sha prior (is_directory (now_dirname env) (make_backup_dir env tgt)))
       (os_walk (set (names_of x)) [] src) (initial_backup_info env d t, []) = Inr st"
    and fs: "files (info res) = files (fst st)"
    and ss: "statistics (info res) = statistics (fst st)"
    by (rule copy_code_files_success)
  have "stats_ok (fst (initial_backup_info env d t, []))"
    by (simp add: stats_ok_def initial_backup_info_def)
  from walk_stats_ok [OF this loop] have "stats_ok (fst st)" .
  then show ?thesis
    unfolding stats_ok_def fs ss by (auto simp: dom_def)
qed

lemma demo_run_succeeds:
  "\<exists>res. copy_code_files (\<lambda>c. c) (run_at ''20240101_000000'' 10) demo_source demo_target
            [] None (Some [''node_modules'']) None = Inr res \<and>
     map path (files (info res)) = [''a.py'', ''notes.MD'', ''pkg/b.py''] \<and>
     map ext_type (files (info res)) = [''.py'', ''.md'', ''.py''] \<and>
     map changed_since_last_backup (files (info res)) = [False, True, True]"
  by (simp add: demo_source_def demo_target_def dir_entry_def manifest_with_def engine_defs)

theorem manifest_counting_invariant_witness:
  "\<exists>res. copy_code_files (\<lambda>c. c) (run_at ''20240101_000000'' 10) demo_source demo_target
            [] None (Some [''node_modules'']) None = Inr res \<and>
     map ext_type (files (info res)) = [''.py'', ''.md'', ''.py''] \<and>
     statistics (info res) ''.py'' = Some 2 \<and>
     statistics (info res) ''.md'' = Some 1 \<and>
     statistics (info res) ''.js'' = Some 0 \<and>
     statistics (info res) ''.png'' = None"
proof -
  from demo_run_succeeds obtain res where
    run: "copy_code_files (\<lambda>c. c) (run_at ''20240101_000000'' 10) demo_source demo_target
            [] None (Some [''node_modules'']) None = Inr res"
    and exts: "map ext_type (files (info res)) = [''.py'', ''.md'', ''.py'']"
    by auto
  from exts obtain r1 r2 r3 where fs: "files (info res) = [r1, r2, r3]"
    and e: "ext_type r1 = ''.py''" "ext_type r2 = ''.md''" "ext_type r3 = ''.py''"
    by auto
  note inv = manifest_counting_invariant [OF run]
  from inv have cnt: "\<And>ext. ext \<in> CODE_FILE_TYPES \<Longrightarrow> statistics (info res) ext =
      Some (length (filter (\<lambda>r. ext_type r = ext) (files (info res))))" by blast
  from inv have dom: "dom (statistics (info res)) = CODE_FILE_TYPES" by blast
  have "statistics (info res) ''.py'' = Some 2"
    using cnt [of "''.py''"] fs e by (simp add: CODE_FILE_TYPES_def)
  moreover have "statistics (info res) ''.md'' = Some 1"
    using cnt [of "''.md''"] fs e by (simp add: CODE_FILE_TYPES_def)
  moreover have "statistics (info res) ''.js'' = Some 0"
    using cnt [of "''.js''"] fs e by (simp add: CODE_FILE_TYPES_def)
  moreover have "statistics (info res) ''.png'' = None"
  proof -
    have "''.png'' \<notin> dom (statistics (info res))" unfolding dom by (simp add: CODE_FILE_TYPES_def)
    then show ?thesis by blast
  qed
  ultimately show ?thesis using run exts by (intro exI [of _ res]) simp
qed

section \<open>Change detection\<close>

lemma record_of_changed:
  "changed_since_last_backup (record_of sha prior root entry) \<longleftrightarrow>
     prior (path (record_of sha prior root entry)) = None \<or>
     prior (path (record_of sha prior root entry)) \<noteq>
       Some (hash (record_of sha prior root entry))"
  by (auto simp: record_of_def file_info_of_def is_modified_def split: option.splits)

lemma records_of_walk_changed:
  "r \<in> set (records_of_walk sha prior ws) \<Longrightarrow>
   changed_since_last_backup r \<longleftrightarrow> prior (path r) = None \<or> prior (path r) \<noteq> Some (hash r)"
  unfolding records_of_walk_def using record_of_changed by auto

lemma last_backup_hash_no_manifest:
  assumes none: "\<forall>e \<in> set target. \<not> has_manifest e"
    and ok: "last_backup_hash target = Inr prior"
  shows "prior = Map.empty"
proof (cases "map d_name (filter (\<lambda>e. d_kind e = Directory) target) = []")
  case True
  with ok show ?thesis by (simp add: last_backup_hash_def)
next
  case False
  let ?p = "\<lambda>e. d_kind e = Directory \<and>
      d_name e = py_max (map d_name (filter (\<lambda>e. d_kind e = Directory) target))"
  show ?thesis
  proof (cases "find ?p target")
    case None
    with ok False show ?thesis by (simp add: last_backup_hash_def Let_def)
  next
    case (Some e)
    then have "e \<in> set target" by (auto simp: find_Some_iff)
    with none have "\<not> has_manifest e" by blast
    with ok False Some show ?thesis
      by (cases "d_manifest e") (simp_all add: last_backup_hash_def Let_def has_manifest_def)
  qed
qed

lemma make_backup_dir_no_manifest:
  "\<forall>e \<in> set target. \<not> has_manifest e \<Longrightarrow>
   \<forall>e \<in> set (make_backup_dir env target). \<not> has_manifest e"
  by (auto simp: make_backup_dir_def has_manifest_def)

text \<open>
  For a run that completes, let \<open>prior\<close> be the mapping from relative path to hash
  that the lookup of the run produced. The file records are those of the
  recognised files of the walk, each with the SHA-256 of the file's content as its hash,
  and a record is marked changed exactly when its path is absent from \<open>prior\<close> or
  \<open>prior\<close> holds another hash for it. When no directory of the destination root holds a
  manifest, every record is marked changed.
\<close>

lemma changed_iff_on_loaded_mapping:
  assumes "copy_code_files sha env src tgt d t x e = Inr res"
  shows "\<exists>prior. last_backup_hash (make_backup_dir env tgt) = Inr prior \<and>
     files (info res) = records_of_walk sha prior (os_walk (set (names_of x)) [] src) \<and>
     (\<forall>r \<in> set (files (info res)).
        changed_since_last_backup r \<longleftrightarrow>
          prior (path r) = None \<or> prior (path r) \<noteq> Some (hash r)) \<and>
     ((\<forall>e \<in> set tgt. \<not> has_manifest e) \<longrightarrow>
        (\<forall>r \<in> set (files (info res)). changed_since_last_backup r))"
proof -
  from copy_code_files_files [OF assms] obtain prior where
    prior: "last_backup_hash (make_backup_dir env tgt) = Inr prior"
    and fs: "files (info res) = records_of_walk sha prior (os_walk (set (names_of x)) [] src)"
    by blast
  have iff: "\<forall>r \<in> set (files (info res)).
        changed_since_last_backup r \<longleftrightarrow>
          prior (path r) = None \<or> prior (path r) \<noteq> Some (hash r)"
    unfolding fs using records_of_walk_changed by blast
  have "\<forall>r \<in> set (files (info res)). changed_since_last_backup r"
    if "\<forall>e \<in> set tgt. \<not> has_manifest e"
  proof -
    from make_backup_dir_no_manifest [OF that] prior have "prior = Map.empty"
      by (rule last_backup_hash_no_manifest)
    with iff show ?thesis by simp
  qed
  with prior fs iff show ?thesis by blast
qed

text \<open>
  C2 (the code departs from the claim). a.py is backed up into an empty destination root
  at 20240101\_000000 and again, unchanged, one second later. The most recent previous
  manifest is the one of the first run; its mapping from path to hash holds a.py with the
  hash the second run computes, so by the contract the record is unchanged. The second
  run compares against the hashes of its own, still empty directory and marks the record
  changed.
\<close>

theorem path_with_same_hash_in_previous_manifest_marked_changed:
  "\<exists>bi r fi.
     map d_name (after_first_run sha c) = [''20240101_000000''] \<and>
     map d_manifest (after_first_run sha c) = [Manifest bi] \<and>
     copy_code_files sha (run_at ''20240101_000001'' 11) [FileNode ''a.py'' (plain_file c)]
       (after_first_run sha c) [] None None None = Inr r \<and>
     files (info r) = [fi] \<and>
     path fi = ''a.py'' \<and>
     hash fi = sha c \<and>
     hash_map (files bi) (path fi) = Some (hash fi) \<and>
     changed_since_last_backup fi"
  by (simp add: after_first_run_def engine_defs)

section \<open>Exclusion\<close>

lemma takeWhile_upto_slash:
  "CHR ''/'' \<notin> set x \<Longrightarrow> takeWhile (\<lambda>c. c \<noteq> CHR ''/'') (x @ CHR ''/'' # a) = x"
  by (induction x) auto

lemma join_path_split:
  assumes "slash_free x" "slash_free y" "x @ CHR ''/'' # a = y @ CHR ''/'' # b"
  shows "x = y \<and> a = b"
proof -
  have "takeWhile (\<lambda>c. c \<noteq> CHR ''/'') (x @ CHR ''/'' # a) = x"
    using assms(1) by (simp add: slash_free_def takeWhile_upto_slash)
  moreover have "takeWhile (\<lambda>c. c \<noteq> CHR ''/'') (y @ CHR ''/'' # b) = y"
    using assms(2) by (simp add: slash_free_def takeWhile_upto_slash)
  ultimately have "x = y" using assms(3) by simp
  with assms(3) show ?thesis by simp
qed

text \<open>Two different lists of names never join to the same relative path.\<close>

lemma join_path_inj:
  assumes "xs \<noteq> []" "ys \<noteq> []"
    and "\<forall>x \<in> set xs. slash_free x" "\<forall>y \<in> set ys. slash_free y"
    and "join_path xs = join_path ys"
  shows "xs = ys"
  using assms
proof (induction xs arbitrary: ys rule: join_path.induct)
  case 1
  then show ?case by simp
next
  case (2 x)
  then obtain y ys' where ys: "ys = y # ys'" by (cases ys) auto
  show ?case
  proof (cases ys')
    case Nil
    with 2 ys show ?thesis by simp
  next
    case (Cons z zs)
    with 2 ys have "x = y @ CHR ''/'' # join_path (z # zs)" by simp
    with 2(3) show ?thesis by (simp add: slash_free_def)
  qed
next
  case (3 x x' xs')
  then obtain y ys' where ys: "ys = y # ys'" by (cases ys) auto
  show ?case
  proof (cases ys')
    case Nil
    with 3 ys have "y = x @ CHR ''/'' # join_path (x' # xs')" by simp
    with 3(5) ys show ?thesis by (simp add: slash_free_def)
  next
    case (Cons z zs)
    with 3 ys have eq: "x @ CHR ''/'' # join_path (x' # xs') = y @ CHR ''/'' # join_path (z # zs)"
      by simp
    from 3(4) have sx: "slash_free x" by simp
    from 3(5) ys have sy: "slash_free y" by simp
    from join_path_split [OF sx sy eq] have xy: "x = y"
      and rest: "join_path (x' # xs') = join_path (z # zs)" by auto
    from 3(4) have a: "\<forall>c \<in> set (x' # xs'). slash_free c" by simp
    from 3(5) ys Cons have b: "\<forall>c \<in> set (z # zs). slash_free c" by simp
    from "3.IH" [OF _ _ a b rest] have "x' # xs' = z # zs" by simp
    with xy ys Cons show ?thesis by simp
  qed
qed

text \<open>
  Every directory the walk yields lies below the start through names that are not
  excluded; in a tree of proper names these and the file names hold no separator.
\<close>

lemma os_walk_roots:
  "w \<in> set (os_walk excl root ns) \<Longrightarrow> wf_nodes ns \<Longrightarrow>
     \<exists>suf. fst w = root @ suf \<and> set suf \<inter> excl = {} \<and> (\<forall>c \<in> set suf. slash_free c) \<and>
       (\<forall>en \<in> set (snd (snd w)). slash_free (fst en))"
  "w \<in> set (walk_subdirs excl root ns) \<Longrightarrow> wf_nodes ns \<Longrightarrow>
     \<exists>suf. fst w = root @ suf \<and> set suf \<inter> excl = {} \<and> (\<forall>c \<in> set suf. slash_free c) \<and>
       (\<forall>en \<in> set (snd (snd w)). slash_free (fst en))"
proof (induction excl root ns and excl root ns arbitrary: w and w
    rule: os_walk_walk_subdirs.induct)
  case (1 excl root ns)
  have files: "\<forall>en \<in> set (file_entries ns). slash_free (fst en)" if "wf_nodes ns" for ns
    using that by (induction ns rule: wf_nodes.induct) auto
  from "1.prems" consider "w = (root, filter (\<lambda>d. d \<notin> excl) (dir_names ns), file_entries ns)"
    | "w \<in> set (walk_subdirs excl root ns)" by auto
  then show ?case
  proof cases
    case 1
    with files [OF "1.prems"(2)] show ?thesis by simp
  next
    case 2
    from "1.IH" [OF this "1.prems"(2)] show ?thesis .
  qed
next
  case (2 excl root)
  then show ?case by simp
next
  case (3 excl root f a ns)
  then show ?case by simp
next
  case (4 excl root d sub ns)
  from "4.prems" consider "d \<notin> excl" "w \<in> set (os_walk excl (root @ [d]) sub)"
    | "w \<in> set (walk_subdirs excl root ns)" by (auto split: if_splits)
  then show ?case
  proof cases
    case 1
    from "4.prems"(2) have wf: "wf_nodes sub" and sd: "slash_free d" by auto
    from "4.IH"(1) [OF 1(1) 1(2) wf] obtain suf where
      "fst w = (root @ [d]) @ suf" "set suf \<inter> excl = {}" "\<forall>c \<in> set suf. slash_free c"
      "\<forall>en \<in> set (snd (snd w)). slash_free (fst en)" by blast
    with 1(1) sd show ?thesis by (intro exI [of _ "d # suf"]) auto
  next
    case 2
    from "4.prems"(2) have "wf_nodes ns" by simp
    from "4.IH"(2) [OF 2 this] show ?thesis .
  qed
qed

text \<open>The pruning itself needs no assumption on the names.\<close>

lemma os_walk_pruned:
  "w \<in> set (os_walk excl root ns) \<Longrightarrow> \<exists>suf. fst w = root @ suf \<and> set suf \<inter> excl = {}"
  "w \<in> set (walk_subdirs excl root ns) \<Longrightarrow> \<exists>suf. fst w = root @ suf \<and> set suf \<inter> excl = {}"
proof (induction excl root ns and excl root ns arbitrary: w and w
    rule: os_walk_walk_subdirs.induct)
  case (1 excl root ns)
  from "1.prems" consider "fst w = root" | "w \<in> set (walk_subdirs excl root ns)" by auto
  then show ?case
  proof cases
    case 1
    then show ?thesis by simp
  next
    case 2
    from "1.IH" [OF this] show ?thesis .
  qed
next
  case (2 excl root)
  then show ?case by simp
next
  case (3 excl root f a ns)
  then show ?case by simp
next
  case (4 excl root d sub ns)
  from "4.prems" consider "d \<notin> excl" "w \<in> set (os_walk excl (root @ [d]) sub)"
    | "w \<in> set (walk_subdirs excl root ns)" by (auto split: if_splits)
  then show ?case
  proof cases
    case 1
    from "4.IH"(1) [OF 1(1) 1(2)] obtain suf where
      "fst w = (root @ [d]) @ suf" "set suf \<inter> excl = {}" by blast
    with 1(1) show ?thesis by (intro exI [of _ "d # suf"]) auto
  next
    case 2
    from "4.IH"(2) [OF 2] show ?thesis .
  qed
qed

lemma record_in_walk:
  assumes "r \<in> set (records_of_walk sha prior ws)"
  obtains w en where "w \<in> set ws" "en \<in> set (snd (snd w))" "path r = relpath (fst w) (fst en)"
  using assms
  by (auto simp: records_of_walk_def record_of_def file_info_of_def)

text \<open>
  C6. The walk never yields a directory reached through an excluded name: every
  \<open>root\<close> it visits is free of excluded names. Consequently, in a source tree whose
  names are proper directory-entry names, a file that lies in directory \<open>ds\<close> of the
  unpruned tree, where \<open>ds\<close> passes through an excluded name, has its relative path in
  no file record of the manifest, whatever its extension.
\<close>

theorem exclusion_soundness:
  assumes run: "copy_code_files sha env src tgt d t x e = Inr res"
    and wf: "wf_nodes src"
    and loc: "(ds, dirs, fs) \<in> set (os_walk {} [] src)" "(file, f) \<in> set fs"
    and ex: "set ds \<inter> set (names_of x) \<noteq> {}"
  shows "(\<forall>w \<in> set (os_walk (set (names_of x)) [] src). set (fst w) \<inter> set (names_of x) = {}) \<and>
         relpath ds file \<notin> path ` set (files (info res))"
proof
  show "\<forall>w \<in> set (os_walk (set (names_of x)) [] src). set (fst w) \<inter> set (names_of x) = {}"
    using os_walk_pruned(1) [of _ "set (names_of x)" "[]" src] by fastforce
next
  show "relpath ds file \<notin> path ` set (files (info res))"
  proof
    assume "relpath ds file \<in> path ` set (files (info res))"
    then obtain r where r: "r \<in> set (files (info res))" and p: "path r = relpath ds file"
      by auto
    from copy_code_files_files [OF run] obtain prior where
      "files (info res) = records_of_walk sha prior (os_walk (set (names_of x)) [] src)"
      by blast
    with r obtain w en where w: "w \<in> set (os_walk (set (names_of x)) [] src)"
      and en: "en \<in> set (snd (snd w))" and pw: "path r = relpath (fst w) (fst en)"
      by (auto elim: record_in_walk)
    from os_walk_roots(1) [OF w wf] en have
      clean: "set (fst w) \<inter> set (names_of x) = {}"
      and sw: "\<forall>c \<in> set (fst w). slash_free c" and se: "slash_free (fst en)"
      by auto
    from os_walk_roots(1) [OF loc(1) wf] loc(2) have
      sd: "\<forall>c \<in> set ds. slash_free c" and sf: "slash_free file"
      by auto
    from p pw have "join_path (ds @ [file]) = join_path (fst w @ [fst en])"
      by (simp add: relpath_def)
    moreover from sd sf have "\<forall>c \<in> set (ds @ [file]). slash_free c" by simp
    moreover from sw se have "\<forall>c \<in> set (fst w @ [fst en]). slash_free c" by simp
    ultimately have "ds @ [file] = fst w @ [fst en]"
      by (intro join_path_inj) simp_all
    then have "ds = fst w" by simp
    with clean ex show False by simp
  qed
qed

lemma demo_source_wf: "wf_nodes demo_source"
  by (simp add: demo_source_def slash_free_def)

lemma demo_dep_location:
  "([''node_modules''], [], [(''dep.js'', plain_file ''d'')]) \<in> set (os_walk {} [] demo_source)"
  by (simp add: demo_source_def)

theorem exclusion_soundness_witness:
  "\<exists>res. copy_code_files (\<lambda>c. c) (run_at ''20240101_000000'' 10) demo_source demo_target
            [] None (Some [''node_modules'']) None = Inr res \<and>
     map path (files (info res)) = [''a.py'', ''notes.MD'', ''pkg/b.py''] \<and>
     lower (splitext_ext ''dep.js'') \<in> CODE_FILE_TYPES \<and>
     ''node_modules/dep.js'' \<notin> path ` set (files (info res)) \<and>
     map fst (os_walk {''node_modules''} [] demo_source) = [[], [''pkg'']]"
proof -
  from demo_run_succeeds obtain res where
    run: "copy_code_files (\<lambda>c. c) (run_at ''20240101_000000'' 10) demo_source demo_target
            [] None (Some [''node_modules'']) None = Inr res"
    and ps: "map path (files (info res)) = [''a.py'', ''notes.MD'', ''pkg/b.py'']"
    by auto
  have mem: "(''dep.js'', plain_file ''d'') \<in> set [(''dep.js'', plain_file ''d'')]" by simp
  have ex: "set [''node_modules''] \<inter> set (names_of (Some [''node_modules''])) \<noteq> {}" by simp
  from exclusion_soundness [OF run demo_source_wf demo_dep_location mem ex]
  have "relpath [''node_modules''] ''dep.js'' \<notin> path ` set (files (info res))" by blast
  then have out: "''node_modules/dep.js'' \<notin> path ` set (files (info res))"
    by (simp add: relpath_def)
  have rec: "lower (splitext_ext ''dep.js'') \<in> CODE_FILE_TYPES"
    by (simp add: lower_def lower_char_def splitext_ext_def CODE_FILE_TYPES_def)
  have roots: "map fst (os_walk {''node_modules''} [] demo_source) = [[], [''pkg'']]"
    by (simp add: demo_source_def)
  from run ps rec out roots show ?thesis by (intro exI [of _ res]) simp
qed

section \<open>Selection of the previous manifest\<close>

lemma py_max_in: "xs \<noteq> [] \<Longrightarrow> py_max xs \<in> set xs"
proof -
  have "foldl (\<lambda>m y. if m < y then y else m) a ys \<in> set (a # ys)" for a :: string and ys
    by (induction ys arbitrary: a) auto
  then show "xs \<noteq> [] \<Longrightarrow> py_max xs \<in> set xs" by (cases xs) auto
qed

lemma py_max_ge:
  assumes "y \<in> set xs"
  shows "y \<le> py_max xs"
proof -
  have ge: "\<forall>y \<in> set (a # ys). y \<le> foldl (\<lambda>m y. if m < y then y else m) a ys"
    for a :: string and ys
  proof (induction ys arbitrary: a)
    case Nil
    then show ?case by simp
  next
    case (Cons z zs)
    have mono: "a \<le> foldl (\<lambda>m y. if m < y then y else m) b zs" if "a \<le> b" for a b :: string
      using Cons.IH [of b] that by auto
    show ?case using Cons.IH [of "if a < z then z else a"] mono by (auto simp: not_less)
  qed
  from assms obtain x xs' where "xs = x # xs'" by (cases xs) auto
  with ge [of x xs'] assms show ?thesis by auto
qed

lemma last_backup_hash_greatest:
  assumes dist: "distinct (map d_name target)"
    and e: "e \<in> set target" "d_kind e = Directory"
    and greatest: "\<forall>e' \<in> set target. d_kind e' = Directory \<longrightarrow> d_name e' \<le> d_name e"
  shows "last_backup_hash target =
           (case d_manifest e of
              NoManifest \<Rightarrow> Inr Map.empty
            | Malformed \<Rightarrow> Inl (ManifestError (d_name e))
            | Manifest bi \<Rightarrow> Inr (hash_map (files bi)))"
proof -
  let ?dirs = "map d_name (filter (\<lambda>e. d_kind e = Directory) target)"
  from e have mem: "d_name e \<in> set ?dirs" by auto
  from e have ne: "?dirs \<noteq> []" by (auto simp: filter_empty_conv)
  from py_max_in [OF ne] obtain e' where e': "e' \<in> set target" "d_kind e' = Directory"
    "d_name e' = py_max ?dirs" by auto
  with greatest have "py_max ?dirs \<le> d_name e" by auto
  moreover from py_max_ge [OF mem] have "d_name e \<le> py_max ?dirs" .
  ultimately have mx: "py_max ?dirs = d_name e" by simp
  let ?p = "\<lambda>a. d_kind a = Directory \<and> d_name a = d_name e"
  from e have "\<exists>a \<in> set target. ?p a" by auto
  then obtain a where a: "find ?p target = Some a"
    by (cases "find ?p target") (auto simp: find_None_iff)
  then have "a \<in> set target" "d_name a = d_name e" by (auto simp: find_Some_iff)
  with dist e(1) have "a = e" by (auto simp: distinct_map inj_on_def)
  with a have "find ?p target = Some e" by simp
  with ne mx show ?thesis
    by (simp add: last_backup_hash_def Let_def split: manifest_state.splits)
qed

text \<open>
  When the name of the run is new and greater than every directory name of the
  destination root, as with timestamps that grow, the lookup reads the directory the run
  has just created, and no previous hash is found whatever the older directories hold.
\<close>

lemma later_run_finds_no_previous_hashes:
  assumes dist: "distinct (map d_name tgt)"
    and later: "\<forall>e \<in> set tgt. d_name e < now_dirname env"
  shows "last_backup_hash (make_backup_dir env tgt) = Inr Map.empty"
proof -
  let ?new = "\<lparr>d_name = now_dirname env, d_kind = Directory, d_mtime = now_mtime env,
               d_manifest = NoManifest, d_is_link = False\<rparr>"
  from later have fresh: "now_dirname env \<notin> set (map d_name tgt)" by auto
  then have mk: "make_backup_dir env tgt = tgt @ [?new]" by (simp add: make_backup_dir_def)
  from dist fresh have 1: "distinct (map d_name (tgt @ [?new]))" by simp
  have 2: "?new \<in> set (tgt @ [?new])" by simp
  have 3: "d_kind ?new = Directory" by simp
  from later have 4: "\<forall>e' \<in> set (tgt @ [?new]). d_kind e' = Directory \<longrightarrow> d_name e' \<le> d_name ?new"
    by (auto simp: less_imp_le)
  from last_backup_hash_greatest [OF 1 2 3 4] mk show ?thesis by simp
qed

text \<open>
  C3 as stated fails: with an older directory that holds a manifest and a newer one that
  does not, the lookup of the code yields no previous hashes, where the selection of the
  specification yields those of the older manifest; and when the manifest of the newer
  directory cannot be read, the lookup raises instead of falling back.
\<close>

theorem prior_manifest_fallback_counterexample:
  "last_backup_hash demo_interrupted = Inr Map.empty \<and>
   spec_last_backup_hash demo_interrupted ''a.py'' = Some ''h'' \<and>
   last_backup_hash demo_corrupt = Inl (ManifestError ''20240102_000000'') \<and>
   spec_last_backup_hash demo_corrupt ''a.py'' = Some ''h''"
  by (simp add: demo_interrupted_def demo_corrupt_def dir_entry_def manifest_with_def
      last_backup_hash_def spec_last_backup_hash_def has_manifest_def hash_map_def Let_def)

text \<open>
  C3, amended. The previous manifest is looked up in one directory only, the one with the
  lexicographically greatest name in the listing of the destination root. When that
  directory holds a readable manifest, its mapping from path to hash is used; when its
  manifest file is missing, the mapping is empty, so that every file is new; when the
  manifest is malformed, the lookup raises. No older directory is consulted, and an error
  of the lookup ends the run.
\<close>

theorem prior_manifest_selection:
  assumes dist: "distinct (map d_name target)"
    and e: "e \<in> set target" "d_kind e = Directory"
    and greatest: "\<forall>e' \<in> set target. d_kind e' = Directory \<longrightarrow> d_name e' \<le> d_name e"
  shows "last_backup_hash target =
           (case d_manifest e of
              NoManifest \<Rightarrow> Inr Map.empty
            | Malformed \<Rightarrow> Inl (ManifestError (d_name e))
            | Manifest bi \<Rightarrow> Inr (hash_map (files bi))) \<and>
         (last_backup_hash (make_backup_dir env tgt) = Inl err \<longrightarrow>
            copy_code_files sha env src tgt descr tgs x names = Inl err)"
proof
  show "last_backup_hash target =
           (case d_manifest e of
              NoManifest \<Rightarrow> Inr Map.empty
            | Malformed \<Rightarrow> Inl (ManifestError (d_name e))
            | Manifest bi \<Rightarrow> Inr (hash_map (files bi)))"
    using dist e greatest by (rule last_backup_hash_greatest)
next
  show "last_backup_hash (make_backup_dir env tgt) = Inl err \<longrightarrow>
            copy_code_files sha env src tgt descr tgs x names = Inl err"
    by (simp add: copy_code_files_def Let_def del: os_walk.simps)
qed

theorem prior_manifest_selection_witness:
  "last_backup_hash demo_interrupted = Inr Map.empty \<and>
   last_backup_hash demo_corrupt = Inl (ManifestError ''20240102_000000'') \<and>
   copy_code_files (\<lambda>c. c) (run_at ''20240102_000000'' 10) demo_source demo_corrupt
     [] None None None = Inl (ManifestError ''20240102_000000'')"
proof -
  let ?e = "dir_entry ''20240102_000000'' 2 NoManifest"
  have 1: "distinct (map d_name demo_interrupted)"
    by (simp add: demo_interrupted_def dir_entry_def)
  have 2: "?e \<in> set demo_interrupted" by (simp add: demo_interrupted_def)
  have 3: "d_kind ?e = Directory" by (simp add: dir_entry_def)
  have 4: "\<forall>e' \<in> set demo_interrupted. d_kind e' = Directory \<longrightarrow> d_name e' \<le> d_name ?e"
    by (simp add: demo_interrupted_def dir_entry_def)
  from prior_manifest_selection [OF 1 2 3 4]
  have a: "last_backup_hash demo_interrupted = Inr Map.empty" by (simp add: dir_entry_def)
  let ?c = "dir_entry ''20240102_000000'' 2 Malformed"
  have 5: "distinct (map d_name demo_corrupt)" by (simp add: demo_corrupt_def dir_entry_def)
  have 6: "?c \<in> set demo_corrupt" by (simp add: demo_corrupt_def)
  have 7: "d_kind ?c = Directory" by (simp add: dir_entry_def)
  have 8: "\<forall>e' \<in> set demo_corrupt. d_kind e' = Directory \<longrightarrow> d_name e' \<le> d_name ?c"
    by (simp add: demo_corrupt_def dir_entry_def)
  note sel = prior_manifest_selection [OF 5 6 7 8,
      of "run_at ''20240102_000000'' 10" demo_corrupt "ManifestError ''20240102_000000''"
         "\<lambda>c. c" demo_source "[]" None None None]
  from sel have b: "last_backup_hash demo_corrupt = Inl (ManifestError ''20240102_000000'')"
    by (simp add: dir_entry_def)
  have same: "make_backup_dir (run_at ''20240102_000000'' 10) demo_corrupt = demo_corrupt"
    by (simp add: make_backup_dir_def run_at_def demo_corrupt_def dir_entry_def)
  from sel b same have "copy_code_files (\<lambda>c. c) (run_at ''20240102_000000'' 10) demo_source
     demo_corrupt [] None None None = Inl (ManifestError ''20240102_000000'')"
    by simp
  with a b show ?thesis by simp
qed

section \<open>Retention\<close>




text \<open>A linked directory stops the loop: what comes after it in the slice stays.\<close>

lemma delete_each_stops_at_link:
  "d_kind old = Directory \<Longrightarrow> d_is_link old \<Longrightarrow>
   delete_each (old # rest) target = (Some (OSError (d_name old)), target)"
  by simp

lemma cleanup_stops_at_linked_directory:
  "map d_name (old_backups demo_linked_backups 1) = [''20240102_000000'', ''linked''] \<and>
   fst (cleanup_old_backups demo_linked_backups 1) = Some (OSError ''linked'') \<and>
   map d_name (snd (cleanup_old_backups demo_linked_backups 1)) =
     [''linked'', ''20240103_000000'']"
  by (simp add: demo_linked_backups_def dir_entry_def old_backups_def cleanup_old_backups_def
      py_slice_from_def is_backup_item_def)





section \<open>The restorer\<close>

lemma glob_requirements_subset: "set (glob_requirements names) \<subseteq> set names"
  by (auto simp: glob_requirements_def)

lemma glob_requirements_not_manifest: "''backup_info.json'' \<notin> set (glob_requirements names)"
  by (auto simp: glob_requirements_def startswith_def)

lemma glob_requirements_without_manifest:
  "glob_requirements (filter (\<lambda>n. n \<noteq> ''backup_info.json'') names) = glob_requirements names"
proof -
  have "(n \<noteq> ''backup_info.json'' \<and> startswith n ''requirements_'' \<and> endswith n ''.txt'' \<and>
           17 \<le> length n) =
        (startswith n ''requirements_'' \<and> endswith n ''.txt'' \<and> 17 \<le> length n)" for n
    by (auto simp: startswith_def)
  then show ?thesis by (simp add: glob_requirements_def)
qed

text \<open>
  C9 as stated fails. In a backup directory with two requirements files and no environment
  name given, one file reaches the installer, not both; and a directory that holds a
  requirements file but no manifest is restored from, without any not-found report.
\<close>

theorem restorer_counterexample:
  "glob_requirements demo_backup_names = [''requirements_a.txt'', ''requirements_b.txt''] \<and>
   restore_env_main demo_backup_names None = Restored ''restored_env'' ''requirements_a.txt'' \<and>
   exposed (restore_env_main demo_backup_names None) = [''requirements_a.txt''] \<and>
   restore_env_main [''requirements.txt''] None = Restored ''restored_env'' ''requirements.txt''"
  by (simp add: demo_backup_names_def restore_env_main_def glob_requirements_def
      startswith_def endswith_def Let_def)

text \<open>
  C9, amended. Given a backup directory, the restorer selects one requirements file: with
  an environment name, the file requirements\_NAME.txt; without one, the first file of the
  directory that matches requirements\_*.txt, or requirements.txt when none matches. When
  the selected file is not in the directory it reports that the file was not found and
  returns without restoring; otherwise it restores from that one file. The manifest is not
  consulted: the outcome is the same with and without backup\_info.json in the directory.
\<close>

theorem restorer_selects_one_fragment:
  "(env_name \<noteq> [] \<longrightarrow>
      restore_env_main names (Some env_name) =
        (if ''requirements_'' @ env_name @ ''.txt'' \<in> set names
         then Restored env_name (''requirements_'' @ env_name @ ''.txt'')
         else NotFoundMessage (''requirements_'' @ env_name @ ''.txt''))) \<and>
   (glob_requirements names = r # rs \<longrightarrow>
      restore_env_main names None = Restored ''restored_env'' r) \<and>
   (glob_requirements names = [] \<longrightarrow>
      restore_env_main names None =
        (if ''requirements.txt'' \<in> set names
         then Restored ''restored_env'' ''requirements.txt''
         else NotFoundMessage ''requirements.txt'')) \<and>
   length (exposed (restore_env_main names arg)) \<le> 1 \<and>
   restore_env_main (filter (\<lambda>n. n \<noteq> ''backup_info.json'') names) arg =
     restore_env_main names arg"
proof (intro conjI impI)
  assume "env_name \<noteq> []"
  then show "restore_env_main names (Some env_name) =
        (if ''requirements_'' @ env_name @ ''.txt'' \<in> set names
         then Restored env_name (''requirements_'' @ env_name @ ''.txt'')
         else NotFoundMessage (''requirements_'' @ env_name @ ''.txt''))"
    by (simp add: restore_env_main_def Let_def)
next
  assume g: "glob_requirements names = r # rs"
  with glob_requirements_subset [of names] have "r \<in> set names" by auto
  with g show "restore_env_main names None = Restored ''restored_env'' r"
    by (simp add: restore_env_main_def Let_def)
next
  assume "glob_requirements names = []"
  then show "restore_env_main names None =
        (if ''requirements.txt'' \<in> set names
         then Restored ''restored_env'' ''requirements.txt''
         else NotFoundMessage ''requirements.txt'')"
    by (simp add: restore_env_main_def Let_def)
next
  show "length (exposed (restore_env_main names arg)) \<le> 1"
    by (simp add: restore_env_main_def Let_def)
next
  let ?names' = "filter (\<lambda>n. n \<noteq> ''backup_info.json'') names"
  have g: "glob_requirements ?names' = glob_requirements names"
    by (rule glob_requirements_without_manifest)
  have m: "n \<in> set ?names' \<longleftrightarrow> n \<in> set names" if "n \<noteq> ''backup_info.json''" for n
    using that by simp
  show "restore_env_main ?names' arg = restore_env_main names arg"
  proof (cases "arg_or_empty arg = []")
    case False
    have "''requirements_'' @ arg_or_empty arg @ ''.txt'' \<noteq> ''backup_info.json''" by simp
    from m [OF this] False show ?thesis
      unfolding restore_env_main_def Let_def by simp
  next
    case True
    show ?thesis
    proof (cases "glob_requirements names")
      case Nil
      have "''requirements.txt'' \<noteq> ''backup_info.json''" by simp
      from m [OF this] True Nil g show ?thesis
        unfolding restore_env_main_def Let_def by simp
    next
      case (Cons q qs)
      with glob_requirements_not_manifest [of names] have "q \<noteq> ''backup_info.json''" by auto
      from m [OF this] True Cons g show ?thesis
        unfolding restore_env_main_def Let_def by simp
    qed
  qed
qed

theorem restorer_selects_one_fragment_witness:
  "restore_env_main demo_backup_names (Some ''b'') = Restored ''b'' ''requirements_b.txt'' \<and>
   restore_env_main demo_backup_names (Some ''c'') = NotFoundMessage ''requirements_c.txt'' \<and>
   restore_env_main demo_backup_names None = Restored ''restored_env'' ''requirements_a.txt'' \<and>
   restore_env_main [''backup_info.json''] None = NotFoundMessage ''requirements.txt'' \<and>
   restore_env_main [''requirements_a.txt'', ''requirements_b.txt''] None =
     restore_env_main demo_backup_names None"
proof -
  have g: "glob_requirements demo_backup_names = ''requirements_a.txt'' # [''requirements_b.txt'']"
    by (simp add: demo_backup_names_def glob_requirements_def startswith_def endswith_def)
  have g0: "glob_requirements [''backup_info.json''] = []"
    by (simp add: glob_requirements_def startswith_def endswith_def)
  have b: "''b'' \<noteq> ([] :: string)" and c: "''c'' \<noteq> ([] :: string)" by simp_all
  note sb = restorer_selects_one_fragment [of "''b''" demo_backup_names]
  note sc = restorer_selects_one_fragment [of "''c''" demo_backup_names]
  note sn = restorer_selects_one_fragment
    [of _ demo_backup_names "''requirements_a.txt''" "[''requirements_b.txt'']" None]
  note s0 = restorer_selects_one_fragment [of _ "[''backup_info.json'']"]
  from sb b have 1: "restore_env_main demo_backup_names (Some ''b'') =
      Restored ''b'' ''requirements_b.txt''"
    by (simp add: demo_backup_names_def)
  from sc c have 2: "restore_env_main demo_backup_names (Some ''c'') =
      NotFoundMessage ''requirements_c.txt''"
    by (simp add: demo_backup_names_def)
  from sn g have 3: "restore_env_main demo_backup_names None =
      Restored ''restored_env'' ''requirements_a.txt''"
    by blast
  from s0 g0 have 4: "restore_env_main [''backup_info.json''] None =
      NotFoundMessage ''requirements.txt''"
    by simp
  from sn have "restore_env_main (filter (\<lambda>n. n \<noteq> ''backup_info.json'') demo_backup_names) None =
      restore_env_main demo_backup_names None" by blast
  then have 5: "restore_env_main [''requirements_a.txt'', ''requirements_b.txt''] None =
      restore_env_main demo_backup_names None"
    by (simp add: demo_backup_names_def)
  from 1 2 3 4 5 show ?thesis by simp
qed

section \<open>Consequences for runs with growing timestamps\<close>

text \<open>
  With directory names that grow from run to run, every record of every run is marked
  changed, whatever the earlier manifests hold.
\<close>

lemma later_run_marks_every_file_changed:
  assumes run: "copy_code_files sha env src tgt d t x e = Inr res"
    and dist: "distinct (map d_name tgt)"
    and later: "\<forall>a \<in> set tgt. d_name a < now_dirname env"
  shows "\<forall>r \<in> set (files (info res)). changed_since_last_backup r"
proof -
  from copy_code_files_files [OF run] obtain prior where
    prior: "last_backup_hash (make_backup_dir env tgt) = Inr prior"
    and fs: "files (info res) = records_of_walk sha prior (os_walk (set (names_of x)) [] src)"
    by blast
  from later_run_finds_no_previous_hashes [OF dist later] prior have "prior = Map.empty"
    by simp
  with fs records_of_walk_changed [of _ sha prior] show ?thesis by simp
qed

text \<open>No run ever reports a file as modified.\<close>

lemma report_never_lists_modified:
  assumes run: "copy_code_files sha env src tgt d t x e = Inr res"
  shows "c_modified (report res) = []"
proof -
  from copy_code_files_files [OF run] obtain prior where
    fs: "files (info res) = records_of_walk sha prior (os_walk (set (names_of x)) [] src)"
    by blast
  have "\<forall>fi \<in> set (files (info res)). existed_in_last_backup fi = None"
    unfolding fs by (auto simp: records_of_walk_def record_of_def file_info_of_def)
  then have "c_modified (generate_change_report (info res)) = []"
    by (rule generate_change_report_without_key)
  moreover from run have "report res = generate_change_report (info res)"
    by (auto simp: copy_code_files_def Let_def simp del: os_walk.simps
        split: sum.splits if_splits)
  ultimately show ?thesis by simp
qed

text \<open>A recognised file whose first copy attempt fails ends the run of a one-file tree.\<close>

lemma first_copy_failure_ends_run:
  assumes "lower (splitext_ext file) \<in> CODE_FILE_TYPES" "readable f" "0 < copy_faults f"
    and "last_backup_hash (make_backup_dir env tgt) = Inr prior"
    and "is_directory (now_dirname env) (make_backup_dir env tgt)"
  shows "copy_code_files sha env [FileNode file f] tgt d t x e = Inl (CopyError file)"
  using assms
  by (simp add: copy_code_files_def Let_def backup_root_def backup_file_def
      calculate_file_hash_def shutil_copy2_def relpath_def)

end
